theory Spec2Isabelle
  imports Complex_Main
begin

section \<open>The event timeline of \<^verbatim>\<open>analytics/timeline.py\<close>\<close>

text \<open>
  The class \<^verbatim>\<open>Timeline\<close> keeps, for a window of time, a sorted collection of
  entries \<^verbatim>\<open>[unix_seconds, delta]\<close> and derives from it an interval partition and
  an average. The model below follows the source method by method. Mutation of
  \<^verbatim>\<open>self\<close> is explicit state passing: a method takes the record of the
  instance and returns the updated record. Every exception is a value of a sum type,
  the ones the libraries raise included: a time that does not convert, a second that
  \<^verbatim>\<open>pandas.Timestamp\<close> cannot render.
\<close>

subsection \<open>Time values\<close>

text \<open>
  What \<^verbatim>\<open>_ts2int\<close> is given: a raw integer Unix timestamp (\<open>Unix\<close>); a value with
  a fractional number of seconds (\<open>Stamp\<close>), that is a \<^verbatim>\<open>datetime\<close> or
  \<^verbatim>\<open>Timestamp\<close> for which \<^verbatim>\<open>ts.timestamp()\<close> is that number, or a finite raw
  float; the float \<^verbatim>\<open>nan\<close>; an infinite float. Python's finite floats are rationals.
\<close>

datatype time_value = Unix int | Stamp rat | NaN | Infinity

text \<open>
  The argument \<^verbatim>\<open>time\<close> of \<^verbatim>\<open>add\<close> and the time columns of the data:
  \<^verbatim>\<open>None\<close>, \<^verbatim>\<open>pandas.NaT\<close>, or a time value.
\<close>

datatype time_arg = PyNone | NaT | Time time_value

datatype timestamp = Timestamp int

datatype error =
  TypeError | ValueError | OverflowError | ZeroDivisionError | OutOfBoundsDatetime

subsection \<open>The instance\<close>

text \<open>
  The attributes that \<^verbatim>\<open>__init__\<close> sets. The \<^verbatim>\<open>SortedKeyList\<close> with key
  \<^verbatim>\<open>x[0]\<close> is the list of its entries in the order the container keeps them; an
  entry \<^verbatim>\<open>[t, delta]\<close> is a pair.
\<close>

record Timeline =
  start :: time_value
  start_int :: int
  end' :: time_value
  end_int :: int
  local :: bool
  debug :: bool
  timeline :: "(int \<times> int) list"

text \<open>A row of the availability view, with the four columns that \<^verbatim>\<open>count\<close> reads.\<close>

record avail_row =
  start_time :: time_arg
  end_time :: time_arg
  start_time_local :: time_arg
  end_time_local :: time_arg

text \<open>
  A record of the partition, with the six columns of the data frame:
  \<^verbatim>\<open>start\<close>, \<^verbatim>\<open>end\<close>, \<^verbatim>\<open>delta\<close>, \<^verbatim>\<open>count\<close>, \<^verbatim>\<open>start_date\<close>, \<^verbatim>\<open>end_date\<close>.
\<close>

record partition_row =
  row_start :: int
  row_end :: int
  row_delta :: int
  row_count :: int
  row_start_date :: timestamp
  row_end_date :: timestamp

subsection \<open>Conversions\<close>

text \<open>
  \<^verbatim>\<open>pandas.Timestamp(i, unit="s")\<close> counts nanoseconds in 64 bits: it renders the
  seconds from \<open>-9223372036\<close> to \<open>9223372036\<close> and raises beyond them.
\<close>

definition in_calendar :: "int \<Rightarrow> bool" where
  "in_calendar i \<longleftrightarrow> - 9223372036 \<le> i \<and> i \<le> 9223372036"

definition int2ts :: "int \<Rightarrow> error + timestamp" where
  "int2ts i = (if in_calendar i then Inr (Timestamp i) else Inl OutOfBoundsDatetime)"

text \<open>
  \<^verbatim>\<open>_ts2int\<close>: \<^verbatim>\<open>int(ts.timestamp())\<close> and, when that raises, \<^verbatim>\<open>int(ts)\<close>.
  \<^verbatim>\<open>int\<close> truncates a float toward zero, raises \<^verbatim>\<open>ValueError\<close> on \<^verbatim>\<open>nan\<close> and
  \<^verbatim>\<open>OverflowError\<close> on an infinity.
\<close>

fun ts2int :: "time_value \<Rightarrow> error + int" where
  "ts2int (Unix n) = Inr n"
| "ts2int (Stamp q) = Inr (if q < 0 then \<lceil>q\<rceil> else \<lfloor>q\<rfloor>)"
| "ts2int NaN = Inl ValueError"
| "ts2int Infinity = Inl OverflowError"

subsection \<open>Construction and reset\<close>

definition reset :: "Timeline \<Rightarrow> Timeline" where
  "reset self = self\<lparr>timeline := []\<rparr>"

text \<open>
  \<^verbatim>\<open>__init__(start, end, local, debug)\<close>; an argument \<open>None\<close> is Python's
  \<^verbatim>\<open>None\<close>, for which the constructor raises \<^verbatim>\<open>TypeError\<close>. A conversion that
  raises ends the construction as well.
\<close>

definition init :: "time_value option \<Rightarrow> time_value option \<Rightarrow> bool \<Rightarrow> bool \<Rightarrow> error + Timeline" where
  "init start_arg end_arg local_arg debug_arg =
     (if start_arg = None \<or> end_arg = None then Inl TypeError
      else (case ts2int (the start_arg) of
              Inl e \<Rightarrow> Inl e
            | Inr s \<Rightarrow>
                (case ts2int (the end_arg) of
                   Inl e \<Rightarrow> Inl e
                 | Inr e \<Rightarrow>
                     Inr (reset \<lparr>start = the start_arg, start_int = s,
                                  end' = the end_arg, end_int = e,
                                  local = local_arg, debug = debug_arg, timeline = []\<rparr>))))"

subsection \<open>The sorted container\<close>

text \<open>
  \<^verbatim>\<open>irange_key(lo, hi)\<close> iterates over the entries whose key lies in \<open>[lo, hi]\<close>,
  in order; here it yields their positions, so that the caller can update the entry in
  place.
\<close>

definition irange_key :: "(int \<times> int) list \<Rightarrow> int \<Rightarrow> int \<Rightarrow> nat list" where
  "irange_key xs lo hi =
     filter (\<lambda>i. lo \<le> fst (xs ! i) \<and> fst (xs ! i) \<le> hi) [0..<length xs]"

text \<open>
  \<^verbatim>\<open>SortedKeyList.add(value)\<close>: the value goes after every entry whose key is not
  greater than its own.
\<close>

fun sk_add :: "int \<times> int \<Rightarrow> (int \<times> int) list \<Rightarrow> (int \<times> int) list" where
  "sk_add v [] = [v]"
| "sk_add v (x # xs) = (if fst v < fst x then v # x # xs else x # sk_add v xs)"

subsection \<open>Adding a delta\<close>

text \<open>
  The first half of \<^verbatim>\<open>add\<close> computes its local \<^verbatim>\<open>t\<close>, the instant at which the
  delta is stored; the conversion of the time may raise.
\<close>

definition add_t :: "Timeline \<Rightarrow> time_arg \<Rightarrow> error + int" where
  "add_t self time =
     (case time of
        PyNone \<Rightarrow> Inr (end_int self)
      | NaT \<Rightarrow> Inr (end_int self)
      | Time ts \<Rightarrow>
          (case ts2int ts of
             Inl e \<Rightarrow> Inl e
           | Inr n \<Rightarrow> Inr (min (max n (start_int self)) (end_int self))))"

text \<open>
  The second half of \<^verbatim>\<open>add\<close>: the first entry at \<open>t\<close> gets the delta added in
  place, and without such an entry a new one is inserted.
\<close>

definition add_at :: "Timeline \<Rightarrow> int \<Rightarrow> int \<Rightarrow> Timeline" where
  "add_at self t delta =
     (case irange_key (timeline self) t t of
        i # _ \<Rightarrow>
          self\<lparr>timeline :=
            (timeline self)[i := (fst (timeline self ! i), snd (timeline self ! i) + delta)]\<rparr>
      | [] \<Rightarrow> self\<lparr>timeline := sk_add (t, delta) (timeline self)\<rparr>)"

definition add :: "Timeline \<Rightarrow> time_arg \<Rightarrow> int \<Rightarrow> error + Timeline" where
  "add self time delta =
     (case add_t self time of
        Inl e \<Rightarrow> Inl e
      | Inr t \<Rightarrow> Inr (add_at self t delta))"

subsection \<open>Bulk loading\<close>

text \<open>
  The body of the loop of \<^verbatim>\<open>count\<close> for one row: two calls of \<^verbatim>\<open>add\<close>. The
  result is the instance as the calls leave it, and the exception if one was raised:
  what was added before the exception stays.
\<close>

definition add_both :: "Timeline \<Rightarrow> time_arg \<Rightarrow> time_arg \<Rightarrow> Timeline \<times> error option" where
  "add_both self time_a time_b =
     (case add self time_a 1 of
        Inl e \<Rightarrow> (self, Some e)
      | Inr self1 \<Rightarrow>
          (case add self1 time_b (- 1) of
             Inl e \<Rightarrow> (self1, Some e)
           | Inr self2 \<Rightarrow> (self2, None)))"

definition count_row :: "Timeline \<Rightarrow> avail_row \<Rightarrow> Timeline \<times> error option" where
  "count_row self row =
     (if local self
      then add_both self (start_time_local row) (end_time_local row)
      else add_both self (start_time row) (end_time row))"

fun count_loop :: "Timeline \<Rightarrow> avail_row list \<Rightarrow> Timeline \<times> error option" where
  "count_loop self [] = (self, None)"
| "count_loop self (row # data) =
     (case count_row self row of
        (self', Some e) \<Rightarrow> (self', Some e)
      | (self', None) \<Rightarrow> count_loop self' data)"

definition count :: "Timeline \<Rightarrow> avail_row list \<Rightarrow> Timeline \<times> error option" where
  "count self data = count_loop (reset self) data"



subsection \<open>The partition\<close>

text \<open>
  The loop \<^verbatim>\<open>for i in range(0, len(self.timeline) - 1)\<close> with its running
  \<^verbatim>\<open>count\<close>; the rows are appended in the order of \<open>i\<close>. The two renderings of a
  row may raise, which ends the loop.
\<close>

function partition_loop :: "(int \<times> int) list \<Rightarrow> nat \<Rightarrow> int \<Rightarrow> error + partition_row list" where
  "partition_loop xs i cnt =
     (if i + 1 < length xs
      then (let cnt' = cnt + snd (xs ! i) in
            case int2ts (fst (xs ! i)) of
              Inl e \<Rightarrow> Inl e
            | Inr start_date \<Rightarrow>
                (case int2ts (fst (xs ! (i + 1))) of
                   Inl e \<Rightarrow> Inl e
                 | Inr end_date \<Rightarrow>
                     (case partition_loop xs (i + 1) cnt' of
                        Inl e \<Rightarrow> Inl e
                      | Inr rows \<Rightarrow>
                          Inr (\<lparr>row_start = fst (xs ! i),
                                row_end = fst (xs ! (i + 1)),
                                row_delta = fst (xs ! (i + 1)) - fst (xs ! i),
                                row_count = cnt',
                                row_start_date = start_date,
                                row_end_date = end_date\<rparr> # rows))))
      else Inr [])"
  by pat_completeness auto
termination
  by (relation "measure (\<lambda>(xs, i, cnt). length xs - i)") auto

definition partition' :: "Timeline \<Rightarrow> error + partition_row list" where
  "partition' self = partition_loop (timeline self) 0 0"

subsection \<open>Statistics\<close>

definition delta_x :: "Timeline \<Rightarrow> error + int list" where
  "delta_x self =
     (case partition' self of
        Inl e \<Rightarrow> Inl e
      | Inr rows \<Rightarrow> Inr (map row_delta rows))"

text \<open>Python's \<^verbatim>\<open>max\<close> raises \<^verbatim>\<open>ValueError\<close> on an empty sequence.\<close>

definition norm' :: "Timeline \<Rightarrow> error + int" where
  "norm' self =
     (case delta_x self of
        Inl e \<Rightarrow> Inl e
      | Inr [] \<Rightarrow> Inl ValueError
      | Inr (d # ds) \<Rightarrow> Inr (fold max ds d))"


text \<open>A sum in a 64-bit signed column wraps around.\<close>

definition int64 :: "int \<Rightarrow> int" where
  "int64 x = (x + 2 ^ 63) mod 2 ^ 64 - 2 ^ 63"

text \<open>
  \<^verbatim>\<open>average\<close>. The areas are summed in a 64-bit column. The quotient
  \<^verbatim>\<open>sigma / delta\<close> is a float in Python; the model returns the exact rational
  quotient. A division by a zero \<^verbatim>\<open>delta\<close> is kept apart as the outcome
  \<open>ZeroDivisionError\<close>, whatever the number library makes of it.
\<close>

definition average :: "Timeline \<Rightarrow> error + rat" where
  "average self =
     (if length (timeline self) \<le> 1 then Inr 0
      else (case partition' self of
              Inl e \<Rightarrow> Inl e
            | Inr rows \<Rightarrow>
                (let areas = map (\<lambda>i. row_count i * row_delta i) rows;
                     sigma = int64 (sum_list areas)
                 in case ts2int (end' self) of
                      Inl e \<Rightarrow> Inl e
                    | Inr e \<Rightarrow>
                        (case ts2int (start self) of
                           Inl e' \<Rightarrow> Inl e'
                         | Inr s \<Rightarrow>
                             (let delta = e - s
                              in if delta = 0 then Inl ZeroDivisionError
                                 else Inr (of_int sigma / of_int delta))))))"

subsection \<open>States of an instance\<close>

text \<open>
  The states an instance can be in: constructed by \<open>init\<close>, then changed by the
  mutating methods only. A \<open>count\<close> that raises leaves the instance as it was when
  the exception came.
\<close>

inductive reachable :: "Timeline \<Rightarrow> bool" where
  reachable_init: "init s e l d = Inr self \<Longrightarrow> reachable self"
| reachable_reset: "reachable self \<Longrightarrow> reachable (reset self)"
| reachable_add: "reachable self \<Longrightarrow> add self time delta = Inr self' \<Longrightarrow> reachable self'"
| reachable_count: "reachable self \<Longrightarrow> reachable (fst (count self data))"

text \<open>The sum of the deltas stored at instant \<open>k\<close>.\<close>

definition delta_at :: "(int \<times> int) list \<Rightarrow> int \<Rightarrow> int" where
  "delta_at xs k = sum_list (map snd (filter (\<lambda>v. fst v = k) xs))"

text \<open>A time that \<open>add\<close> takes without raising, and a row whose consulted times are such.\<close>

definition converts :: "time_arg \<Rightarrow> bool" where
  "converts time =
     (case time of
        Time ts \<Rightarrow> (case ts2int ts of Inl _ \<Rightarrow> False | Inr _ \<Rightarrow> True)
      | _ \<Rightarrow> True)"


text \<open>
  What holds of every state of an instance: the cached bounds are the conversions of
  the window, the keys are strictly ascending, and every key lies between
  \<open>min start_int end_int\<close> and \<open>end_int\<close>.
\<close>

definition timeline_inv :: "Timeline \<Rightarrow> bool" where
  "timeline_inv self \<longleftrightarrow>
     ts2int (start self) = Inr (start_int self) \<and>
     ts2int (end' self) = Inr (end_int self) \<and>
     sorted_wrt (<) (map fst (timeline self)) \<and>
     list_all (\<lambda>k. min (start_int self) (end_int self) \<le> k \<and> k \<le> end_int self)
       (map fst (timeline self))"

declare partition_loop.simps [simp del]

section \<open>Auxiliary facts\<close>

subsection \<open>The container: positions, insertion, stored deltas\<close>

lemma irange_key_Nil_iff: "irange_key xs t t = [] \<longleftrightarrow> t \<notin> fst ` set xs"
proof
  assume e: "irange_key xs t t = []"
  show "t \<notin> fst ` set xs"
  proof
    assume "t \<in> fst ` set xs"
    then obtain i where "i < length xs" "fst (xs ! i) = t"
      by (auto simp: in_set_conv_nth)
    then have "i \<in> set (irange_key xs t t)"
      by (simp add: irange_key_def)
    with e show False by simp
  qed
next
  assume "t \<notin> fst ` set xs"
  then have "\<forall>i < length xs. fst (xs ! i) \<noteq> t"
    by (metis nth_mem imageI)
  then show "irange_key xs t t = []"
    by (auto simp: irange_key_def filter_empty_conv)
qed

lemma irange_key_ConsD:
  assumes "irange_key xs t t = i # js"
  shows "i < length xs \<and> fst (xs ! i) = t"
proof -
  have "i \<in> set (irange_key xs t t)"
    using assms by simp
  then show ?thesis
    by (auto simp: irange_key_def)
qed

lemma set_sk_add: "set (sk_add v xs) = insert v (set xs)"
  by (induction xs) auto

lemma sorted_sk_add:
  "sorted_wrt (<) (map fst xs) \<Longrightarrow> fst v \<notin> fst ` set xs \<Longrightarrow>
   sorted_wrt (<) (map fst (sk_add v xs))"
  by (induction xs) (auto simp: set_sk_add)

lemma map_fst_bump: "map fst (xs[i := (fst (xs ! i), w)]) = map fst xs"
proof (cases "i < length xs")
  case True
  then have "(map fst xs)[i := map fst xs ! i] = map fst xs"
    by (simp only: list_update_id)
  with True show ?thesis
    by (simp add: map_update)
next
  case False
  then show ?thesis by (simp add: list_update_beyond)
qed

lemma delta_at_sk_add:
  "delta_at (sk_add v xs) k = delta_at xs k + (if fst v = k then snd v else 0)"
  by (induction xs) (auto simp: delta_at_def)

lemma delta_at_bump:
  "i < length xs \<Longrightarrow>
   delta_at (xs[i := (fst (xs ! i), snd (xs ! i) + d)]) k =
   delta_at xs k + (if fst (xs ! i) = k then d else 0)"
proof (induction xs arbitrary: i)
  case Nil
  then show ?case by simp
next
  case (Cons x xs)
  then show ?case
    by (cases i) (auto simp: delta_at_def)
qed

lemma filter_key_unique:
  "distinct (map fst xs) \<Longrightarrow> k \<in> fst ` set xs \<Longrightarrow>
   filter (\<lambda>v. fst v = k) xs = [(k, delta_at xs k)]"
proof (induction xs)
  case Nil
  then show ?case by simp
next
  case (Cons x xs)
  show ?case
  proof (cases "fst x = k")
    case True
    with Cons.prems have "k \<notin> fst ` set xs"
      by simp
    then have "filter (\<lambda>v. fst v = k) xs = []"
      by (auto simp: filter_empty_conv)
    with True show ?thesis
      by (cases x) (simp add: delta_at_def)
  next
    case False
    with Cons show ?thesis
      by (auto simp: delta_at_def)
  qed
qed

lemma delta_at_absent: "k \<notin> fst ` set xs \<Longrightarrow> delta_at xs k = 0"
proof -
  assume "k \<notin> fst ` set xs"
  then have "filter (\<lambda>v. fst v = k) xs = []"
    by (auto simp: filter_empty_conv)
  then show ?thesis
    by (simp add: delta_at_def)
qed

subsection \<open>Distinct keys\<close>

lemma card_keys: "distinct (map fst xs) \<Longrightarrow> card (fst ` set xs) = length xs"
  by (metis distinct_card length_map set_map)

subsection \<open>What \<open>add\<close> changes\<close>

lemma add_at_fields:
  "start (add_at self t d) = start self"
  "start_int (add_at self t d) = start_int self"
  "end' (add_at self t d) = end' self"
  "end_int (add_at self t d) = end_int self"
  "local (add_at self t d) = local self"
  "debug (add_at self t d) = debug self"
  by (simp_all add: add_at_def split: list.splits)

lemma reset_add_at: "reset (add_at self t d) = reset self"
  by (simp add: add_at_def reset_def split: list.splits)

lemma keys_add_at:
  "fst ` set (timeline (add_at self t d)) = insert t (fst ` set (timeline self))"
proof (cases "irange_key (timeline self) t t")
  case Nil
  then show ?thesis
    by (simp add: add_at_def set_sk_add)
next
  case (Cons i js)
  from irange_key_ConsD [OF Cons]
  have i: "i < length (timeline self)" "fst (timeline self ! i) = t"
    by simp_all
  have "map fst (timeline (add_at self t d)) = map fst (timeline self)"
    using Cons by (simp add: add_at_def map_fst_bump)
  then have "fst ` set (timeline (add_at self t d)) = fst ` set (timeline self)"
    by (metis set_map)
  moreover have "t \<in> fst ` set (timeline self)"
    using i by (metis nth_mem imageI)
  ultimately show ?thesis
    by auto
qed

lemma delta_at_add_at:
  "delta_at (timeline (add_at self t d)) k =
   delta_at (timeline self) k + (if k = t then d else 0)"
proof (cases "irange_key (timeline self) t t")
  case Nil
  then show ?thesis
    by (auto simp: add_at_def delta_at_sk_add)
next
  case (Cons i js)
  from irange_key_ConsD [OF Cons]
  have i: "i < length (timeline self)" "fst (timeline self ! i) = t"
    by simp_all
  have "timeline (add_at self t d) =
      (timeline self)[i := (fst (timeline self ! i), snd (timeline self ! i) + d)]"
    using Cons by (simp add: add_at_def)
  then show ?thesis
    using delta_at_bump [OF i(1), of d k] i(2) by auto
qed

lemma sorted_add_at:
  assumes "sorted_wrt (<) (map fst (timeline self))"
  shows "sorted_wrt (<) (map fst (timeline (add_at self t d)))"
proof (cases "irange_key (timeline self) t t")
  case Nil
  then have "t \<notin> fst ` set (timeline self)"
    by (simp add: irange_key_Nil_iff)
  with assms Nil show ?thesis
    by (simp add: add_at_def sorted_sk_add)
next
  case (Cons i js)
  with assms show ?thesis
    by (simp add: add_at_def map_fst_bump)
qed

lemma add_Inr_iff:
  "add self time d = Inr self' \<longleftrightarrow> (\<exists>t. add_t self time = Inr t \<and> self' = add_at self t d)"
  by (auto simp: add_def split: sum.splits)

lemma add_Inl_iff: "add self time d = Inl e \<longleftrightarrow> add_t self time = Inl e"
  by (auto simp: add_def split: sum.splits)

lemma add_t_add_at: "add_t (add_at self t d) time = add_t self time"
  by (cases time) (simp_all add: add_t_def add_at_fields split: sum.splits)

lemma add_t_bounds:
  "add_t self time = Inr t \<Longrightarrow>
   min (start_int self) (end_int self) \<le> t \<and> t \<le> end_int self"
  by (cases time) (auto simp: add_t_def split: sum.splits)

lemma add_t_converts: "(\<exists>t. add_t self time = Inr t) \<longleftrightarrow> converts time"
  by (cases time) (auto simp: add_t_def converts_def split: sum.splits)

subsection \<open>The invariant holds in every state of an instance\<close>

lemma inv_keys:
  "timeline_inv self \<longleftrightarrow>
     ts2int (start self) = Inr (start_int self) \<and> ts2int (end' self) = Inr (end_int self) \<and>
     sorted_wrt (<) (map fst (timeline self)) \<and>
     (\<forall>k \<in> fst ` set (timeline self). min (start_int self) (end_int self) \<le> k \<and> k \<le> end_int self)"
  by (auto simp: timeline_inv_def list_all_iff)

lemma inv_init: "init s e l d = Inr self \<Longrightarrow> timeline_inv self"
  by (auto simp: init_def reset_def timeline_inv_def split: if_splits sum.splits)

lemma inv_reset: "timeline_inv self \<Longrightarrow> timeline_inv (reset self)"
  by (simp add: timeline_inv_def reset_def)

lemma inv_add_at:
  "timeline_inv self \<Longrightarrow> min (start_int self) (end_int self) \<le> t \<Longrightarrow> t \<le> end_int self \<Longrightarrow>
   timeline_inv (add_at self t d)"
  unfolding inv_keys
  by (simp add: add_at_fields keys_add_at sorted_add_at)

lemma inv_add: "timeline_inv self \<Longrightarrow> add self time d = Inr self' \<Longrightarrow> timeline_inv self'"
  using add_t_bounds [of self time]
  by (auto simp: add_Inr_iff inv_add_at)

lemma inv_add_both: "timeline_inv self \<Longrightarrow> timeline_inv (fst (add_both self a b))"
  by (auto simp: add_both_def split: sum.splits dest: inv_add)

lemma inv_count_row: "timeline_inv self \<Longrightarrow> timeline_inv (fst (count_row self row))"
  by (simp add: count_row_def inv_add_both)

lemma inv_count_loop: "timeline_inv self \<Longrightarrow> timeline_inv (fst (count_loop self data))"
proof (induction data arbitrary: self)
  case Nil
  then show ?case by simp
next
  case (Cons row data)
  from Cons.prems have "timeline_inv (fst (count_row self row))"
    by (rule inv_count_row)
  with Cons.IH show ?case
    by (cases "count_row self row") (auto split: option.splits)
qed

lemma inv_count: "timeline_inv self \<Longrightarrow> timeline_inv (fst (count self data))"
  by (simp add: count_def inv_count_loop inv_reset)

lemma reachable_inv: "reachable self \<Longrightarrow> timeline_inv self"
  by (induction rule: reachable.induct) (auto intro: inv_init inv_reset inv_add inv_count)

lemma inv_distinct: "timeline_inv self \<Longrightarrow> distinct (map fst (timeline self))"
  by (simp add: timeline_inv_def strict_sorted_iff)

lemma inv_two_entries:
  assumes "timeline_inv self" and "1 < length (timeline self)"
  shows "start_int self < end_int self"
proof -
  obtain x y zs where xs: "timeline self = x # y # zs"
    using assms(2) by (cases "timeline self"; cases "tl (timeline self)") auto
  from assms(1) have "fst x < fst y"
    by (simp add: timeline_inv_def xs)
  moreover from assms(1)
  have "min (start_int self) (end_int self) \<le> fst x" "fst y \<le> end_int self"
    by (simp_all add: timeline_inv_def xs)
  ultimately show ?thesis
    by linarith
qed

subsection \<open>Loading after a reset\<close>

lemma reset_add: "add self time d = Inr self' \<Longrightarrow> reset self' = reset self"
  by (auto simp: add_Inr_iff reset_add_at)

lemma reset_add_both: "reset (fst (add_both self a b)) = reset self"
proof (cases "add self a 1")
  case (Inl e)
  then show ?thesis
    by (simp add: add_both_def)
next
  case first: (Inr self1)
  then have r1: "reset self1 = reset self"
    by (rule reset_add)
  show ?thesis
  proof (cases "add self1 b (- 1)")
    case (Inl e)
    with first r1 show ?thesis
      by (simp add: add_both_def)
  next
    case (Inr self2)
    then have "reset self2 = reset self1"
      by (rule reset_add)
    with first Inr r1 show ?thesis
      by (simp add: add_both_def)
  qed
qed

lemma reset_count_row: "reset (fst (count_row self row)) = reset self"
  by (simp add: count_row_def reset_add_both)

lemma reset_count_loop: "reset (fst (count_loop self data)) = reset self"
proof (induction data arbitrary: self)
  case Nil
  then show ?case by simp
next
  case (Cons row data)
  have "reset (fst (count_row self row)) = reset self"
    by (rule reset_count_row)
  with Cons.IH show ?case
    by (cases "count_row self row") (auto split: option.splits)
qed

lemma reset_reset: "reset (reset self) = reset self"
  by (simp add: reset_def)

lemma reset_count: "reset (fst (count self data)) = reset self"
  by (simp add: count_def reset_count_loop reset_reset)

subsection \<open>Which rows load without an exception\<close>









subsection \<open>The rows of the partition\<close>

lemma partition_loop_short: "length xs \<le> i + 1 \<Longrightarrow> partition_loop xs i cnt = Inr []"
  by (subst partition_loop.simps) simp

lemma partition_loop_step:
  assumes "i + 1 < length xs"
  shows "partition_loop xs i cnt =
     (case int2ts (fst (xs ! i)) of
        Inl e \<Rightarrow> Inl e
      | Inr start_date \<Rightarrow>
          (case int2ts (fst (xs ! (i + 1))) of
             Inl e \<Rightarrow> Inl e
           | Inr end_date \<Rightarrow>
               (case partition_loop xs (i + 1) (cnt + snd (xs ! i)) of
                  Inl e \<Rightarrow> Inl e
                | Inr rows \<Rightarrow>
                    Inr (\<lparr>row_start = fst (xs ! i),
                          row_end = fst (xs ! (i + 1)),
                          row_delta = fst (xs ! (i + 1)) - fst (xs ! i),
                          row_count = cnt + snd (xs ! i),
                          row_start_date = start_date,
                          row_end_date = end_date\<rparr> # rows))))"
  using assms by (subst partition_loop.simps) (simp add: Let_def)

lemma partition_loop_Inl:
  "i + 1 < length xs \<Longrightarrow> \<not> list_all in_calendar (map fst (drop i xs)) \<Longrightarrow>
   partition_loop xs i cnt = Inl OutOfBoundsDatetime"
proof (induction xs i cnt rule: partition_loop.induct)
  case (1 xs i cnt)
  from "1.prems"(1) have dr: "drop i xs = xs ! i # drop (Suc i) xs"
    by (simp add: Cons_nth_drop_Suc)
  from "1.prems"(1) have dr': "drop (Suc i) xs = xs ! Suc i # drop (Suc (Suc i)) xs"
    by (simp add: Cons_nth_drop_Suc)
  show ?case
  proof (cases "in_calendar (fst (xs ! i))")
    case False
    then show ?thesis
      by (simp add: partition_loop_step [OF "1.prems"(1)] int2ts_def)
  next
    case here: True
    show ?thesis
    proof (cases "in_calendar (fst (xs ! (i + 1)))")
      case False
      with here show ?thesis
        by (simp add: partition_loop_step [OF "1.prems"(1)] int2ts_def)
    next
      case nxt: True
      from "1.prems"(2) here have rest: "\<not> list_all in_calendar (map fst (drop (i + 1) xs))"
        by (simp add: dr)
      have more: "i + 1 + 1 < length xs"
      proof (rule ccontr)
        assume "\<not> i + 1 + 1 < length xs"
        then have "drop (Suc (Suc i)) xs = []"
          by simp
        with rest nxt show False
          by (simp add: dr')
      qed
      have "partition_loop xs (i + 1) (cnt + snd (xs ! i)) = Inl OutOfBoundsDatetime"
        using "1.IH" [OF "1.prems"(1) refl _ _ more rest] here nxt
        by (simp add: int2ts_def)
      with here nxt show ?thesis
        by (simp add: partition_loop_step [OF "1.prems"(1)] int2ts_def)
    qed
  qed
qed

lemma partition_loop_Inr:
  "list_all in_calendar (map fst (drop i xs)) \<Longrightarrow>
   \<exists>rows. partition_loop xs i cnt = Inr rows \<and>
     length rows = length xs - 1 - i \<and>
     (\<forall>j < length rows.
        row_start (rows ! j) = fst (xs ! (i + j)) \<and>
        row_end (rows ! j) = fst (xs ! (i + j + 1)) \<and>
        row_delta (rows ! j) = fst (xs ! (i + j + 1)) - fst (xs ! (i + j)) \<and>
        row_count (rows ! j) = cnt + sum_list (map snd (take (j + 1) (drop i xs))))"
proof (induction xs i cnt rule: partition_loop.induct)
  case (1 xs i cnt)
  show ?case
  proof (cases "i + 1 < length xs")
    case False
    then show ?thesis
      by (simp add: partition_loop_short)
  next
    case lt: True
    then have dr: "drop i xs = xs ! i # drop (Suc i) xs"
      by (simp add: Cons_nth_drop_Suc)
    from lt have dr': "drop (Suc i) xs = xs ! Suc i # drop (Suc (Suc i)) xs"
      by (simp add: Cons_nth_drop_Suc)
    from "1.prems" have here: "in_calendar (fst (xs ! i))"
      and nxt: "in_calendar (fst (xs ! (i + 1)))"
      and rest: "list_all in_calendar (map fst (drop (i + 1) xs))"
      by (simp_all add: dr dr')
    have "\<exists>rows. partition_loop xs (i + 1) (cnt + snd (xs ! i)) = Inr rows \<and>
        length rows = length xs - 1 - (i + 1) \<and>
        (\<forall>j < length rows.
           row_start (rows ! j) = fst (xs ! (i + 1 + j)) \<and>
           row_end (rows ! j) = fst (xs ! (i + 1 + j + 1)) \<and>
           row_delta (rows ! j) = fst (xs ! (i + 1 + j + 1)) - fst (xs ! (i + 1 + j)) \<and>
           row_count (rows ! j) =
             cnt + snd (xs ! i) + sum_list (map snd (take (j + 1) (drop (i + 1) xs))))"
      using "1.IH" [OF lt refl _ _ rest] here nxt
      by (simp add: int2ts_def)
    then obtain rows where rows: "partition_loop xs (i + 1) (cnt + snd (xs ! i)) = Inr rows"
      and len: "length rows = length xs - 1 - (i + 1)"
      and nth: "\<And>j. j < length rows \<Longrightarrow>
        row_start (rows ! j) = fst (xs ! (i + 1 + j)) \<and>
        row_end (rows ! j) = fst (xs ! (i + 1 + j + 1)) \<and>
        row_delta (rows ! j) = fst (xs ! (i + 1 + j + 1)) - fst (xs ! (i + 1 + j)) \<and>
        row_count (rows ! j) =
          cnt + snd (xs ! i) + sum_list (map snd (take (j + 1) (drop (i + 1) xs)))"
      by blast
    let ?r = "\<lparr>row_start = fst (xs ! i), row_end = fst (xs ! (i + 1)),
        row_delta = fst (xs ! (i + 1)) - fst (xs ! i), row_count = cnt + snd (xs ! i),
        row_start_date = Timestamp (fst (xs ! i)),
        row_end_date = Timestamp (fst (xs ! (i + 1)))\<rparr>"
    have eq: "partition_loop xs i cnt = Inr (?r # rows)"
      using here nxt rows by (simp add: partition_loop_step [OF lt] int2ts_def)
    have "length (?r # rows) = length xs - 1 - i"
      using len lt by simp
    moreover have "row_start ((?r # rows) ! j) = fst (xs ! (i + j)) \<and>
        row_end ((?r # rows) ! j) = fst (xs ! (i + j + 1)) \<and>
        row_delta ((?r # rows) ! j) = fst (xs ! (i + j + 1)) - fst (xs ! (i + j)) \<and>
        row_count ((?r # rows) ! j) = cnt + sum_list (map snd (take (j + 1) (drop i xs)))"
      if "j < length (?r # rows)" for j
    proof (cases j)
      case 0
      then show ?thesis
        by (simp add: dr)
    next
      case (Suc j')
      with that have "j' < length rows"
        by simp
      from nth [OF this] Suc show ?thesis
        by (simp add: dr)
    qed
    ultimately show ?thesis
      using eq by blast
  qed
qed

lemma partition_Inr:
  assumes "length (timeline self) \<le> 1 \<or> list_all in_calendar (map fst (timeline self))"
  shows "\<exists>rows. partition' self = Inr rows \<and>
     length rows = length (timeline self) - 1 \<and>
     (\<forall>j < length rows.
        row_start (rows ! j) = fst (timeline self ! j) \<and>
        row_end (rows ! j) = fst (timeline self ! (j + 1)) \<and>
        row_delta (rows ! j) = fst (timeline self ! (j + 1)) - fst (timeline self ! j) \<and>
        row_count (rows ! j) = sum_list (map snd (take (j + 1) (timeline self))))"
proof (cases "length (timeline self) \<le> 1")
  case True
  then show ?thesis
    by (simp add: partition'_def partition_loop_short)
next
  case False
  with assms have "list_all in_calendar (map fst (drop 0 (timeline self)))"
    by simp
  from partition_loop_Inr [OF this, of 0] show ?thesis
    by (simp add: partition'_def)
qed

lemma partition_Inl:
  "1 < length (timeline self) \<Longrightarrow> \<not> list_all in_calendar (map fst (timeline self)) \<Longrightarrow>
   partition' self = Inl OutOfBoundsDatetime"
  using partition_loop_Inl [of 0 "timeline self" 0] by (simp add: partition'_def)

lemma partition_Nil_iff: "partition' self = Inr [] \<longleftrightarrow> length (timeline self) \<le> 1"
proof
  assume e: "partition' self = Inr []"
  show "length (timeline self) \<le> 1"
  proof (rule ccontr)
    assume long: "\<not> length (timeline self) \<le> 1"
    show False
    proof (cases "list_all in_calendar (map fst (timeline self))")
      case True
      with partition_Inr [of self] e long show False
        by auto
    next
      case False
      with partition_Inl [of self] e long show False
        by simp
    qed
  qed
next
  assume "length (timeline self) \<le> 1"
  then show "partition' self = Inr []"
    by (simp add: partition'_def partition_loop_short)
qed

subsection \<open>Sums within 64 bits\<close>



section \<open>The claims\<close>

text \<open>
  Claim C1, as the code has it: on the window \<open>[0, 10]\<close>, loading the intervals
  \<open>(0, 5)\<close> and \<open>(2, 7)\<close> raises nothing and stores the entries
  \<open>(0, 1), (2, 1), (5, -1), (7, -1)\<close>; the partition has exactly the three rows
  (start, end, width, count) \<open>(0, 2, 2, 1)\<close>, \<open>(2, 5, 3, 2)\<close>, \<open>(5, 7, 2, 1)\<close>; and
  \<open>average\<close> is \<open>(2 * 1 + 3 * 2 + 2 * 1) / 10\<close>, which is \<open>1\<close>.
\<close>

theorem C1_example:
  "init (Some (Unix 0)) (Some (Unix 10)) False False = Inr (\<lparr>start = Unix 0, start_int = 0, end' = Unix 10, end_int = 10,
       local = False, debug = False, timeline = []\<rparr>) \<and>
   count (\<lparr>start = Unix 0, start_int = 0, end' = Unix 10, end_int = 10,
       local = False, debug = False, timeline = []\<rparr>)
      [\<lparr>start_time = Time (Unix 0), end_time = Time (Unix 5),
        start_time_local = PyNone, end_time_local = PyNone\<rparr>,
       \<lparr>start_time = Time (Unix 2), end_time = Time (Unix 7),
        start_time_local = PyNone, end_time_local = PyNone\<rparr>] =
     ((\<lparr>start = Unix 0, start_int = 0, end' = Unix 10, end_int = 10,
       local = False, debug = False, timeline = [(0, 1), (2, 1), (5, - 1), (7, - 1)]\<rparr>), None) \<and>
   partition' (\<lparr>start = Unix 0, start_int = 0, end' = Unix 10, end_int = 10,
       local = False, debug = False, timeline = [(0, 1), (2, 1), (5, - 1), (7, - 1)]\<rparr>) =
     Inr [\<lparr>row_start = 0, row_end = 2, row_delta = 2, row_count = 1,
        row_start_date = Timestamp 0, row_end_date = Timestamp 2\<rparr>,
       \<lparr>row_start = 2, row_end = 5, row_delta = 3, row_count = 2,
        row_start_date = Timestamp 2, row_end_date = Timestamp 5\<rparr>,
       \<lparr>row_start = 5, row_end = 7, row_delta = 2, row_count = 1,
        row_start_date = Timestamp 5, row_end_date = Timestamp 7\<rparr>] \<and>
   average (\<lparr>start = Unix 0, start_int = 0, end' = Unix 10, end_int = 10,
       local = False, debug = False, timeline = [(0, 1), (2, 1), (5, - 1), (7, - 1)]\<rparr>) = Inr ((2 * 1 + 3 * 2 + 2 * 1) / 10) \<and>
   (2 * 1 + 3 * 2 + 2 * 1) / 10 = (1::rat)"
  by (simp add: init_def count_def count_row_def add_both_def reset_def add_def add_t_def
      add_at_def irange_key_def partition'_def partition_loop.simps int2ts_def in_calendar_def
      average_def int64_def)

text \<open>
  Claim C1 as stated gives the average as \<open>1.4\<close>, that is \<open>14 / 10\<close>. The areas
  of the three rows are \<open>2\<close>, \<open>6\<close> and \<open>2\<close>, whose sum is \<open>10\<close>, so the
  average of the example is not \<open>14 / 10\<close>.
\<close>

theorem C1_average_counterexample:
  "count (\<lparr>start = Unix 0, start_int = 0, end' = Unix 10, end_int = 10,
       local = False, debug = False, timeline = []\<rparr>)
      [\<lparr>start_time = Time (Unix 0), end_time = Time (Unix 5),
        start_time_local = PyNone, end_time_local = PyNone\<rparr>,
       \<lparr>start_time = Time (Unix 2), end_time = Time (Unix 7),
        start_time_local = PyNone, end_time_local = PyNone\<rparr>] =
     ((\<lparr>start = Unix 0, start_int = 0, end' = Unix 10, end_int = 10,
       local = False, debug = False, timeline = [(0, 1), (2, 1), (5, - 1), (7, - 1)]\<rparr>), None) \<and>
   average (\<lparr>start = Unix 0, start_int = 0, end' = Unix 10, end_int = 10,
       local = False, debug = False, timeline = [(0, 1), (2, 1), (5, - 1), (7, - 1)]\<rparr>) \<noteq> Inr (14 / 10)"
  by (simp add: count_def count_row_def add_both_def reset_def add_def add_t_def
      add_at_def irange_key_def partition'_def partition_loop.simps int2ts_def in_calendar_def
      average_def int64_def)




text \<open>
  Claim C3, as the code has it: the instant of \<open>add\<close> is the window end when the
  time is \<^verbatim>\<open>None\<close> or \<^verbatim>\<open>NaT\<close>, and \<open>min end_int (max start_int n)\<close> for a time
  that converts to \<open>n\<close>; on a window with \<open>start_int \<le> end_int\<close> this is
  \<open>max start_int (min end_int n)\<close>. The delta is stored there: \<open>add\<close> raises
  nothing, the stored instants are the old ones and that instant, and the delta stored
  at an instant \<open>k'\<close> grows by \<open>d\<close> exactly when \<open>k'\<close> is that instant. A time
  that does not convert makes \<open>add\<close> raise.
\<close>

theorem C3_clamping:
  "add_t self PyNone = Inr (end_int self) \<and>
   add_t self NaT = Inr (end_int self) \<and>
   (ts2int t = Inr n \<longrightarrow>
      add_t self (Time t) = Inr (min (end_int self) (max (start_int self) n)) \<and>
      (start_int self \<le> end_int self \<longrightarrow>
         add_t self (Time t) = Inr (max (start_int self) (min (end_int self) n)))) \<and>
   (add_t self time = Inr k \<longrightarrow>
      (\<exists>self'. add self time d = Inr self' \<and>
         fst ` set (timeline self') = insert k (fst ` set (timeline self)) \<and>
         (\<forall>k'. delta_at (timeline self') k' =
            delta_at (timeline self) k' + (if k' = k then d else 0)))) \<and>
   (add_t self time = Inl e \<longrightarrow> add self time d = Inl e)"
proof -
  have "add_t self (Time t) = Inr (min (end_int self) (max (start_int self) n))"
    if "ts2int t = Inr n"
    using that by (simp add: add_t_def min.commute max.commute)
  moreover have "add_t self (Time t) = Inr (max (start_int self) (min (end_int self) n))"
    if "ts2int t = Inr n" and "start_int self \<le> end_int self"
    using that by (simp add: add_t_def)
  moreover have "\<exists>self'. add self time d = Inr self' \<and>
      fst ` set (timeline self') = insert k (fst ` set (timeline self)) \<and>
      (\<forall>k'. delta_at (timeline self') k' =
         delta_at (timeline self) k' + (if k' = k then d else 0))"
    if "add_t self time = Inr k"
    using that by (simp add: add_def keys_add_at delta_at_add_at)
  moreover have "add self time d = Inl e" if "add_t self time = Inl e"
    using that by (simp add: add_def)
  moreover have "add_t self PyNone = Inr (end_int self)" "add_t self NaT = Inr (end_int self)"
    by (simp_all add: add_t_def)
  ultimately show ?thesis
    by blast
qed

text \<open>C3 on the window \<open>[0, 10]\<close> at a time after the window.\<close>

theorem C3_clamping_witness:
  "ts2int (Unix 15) = Inr 15 \<and>
   start_int (\<lparr>start = Unix 0, start_int = 0, end' = Unix 10, end_int = 10,
       local = False, debug = False, timeline = []\<rparr>) \<le> end_int (\<lparr>start = Unix 0, start_int = 0, end' = Unix 10, end_int = 10,
       local = False, debug = False, timeline = []\<rparr>) \<and>
   add_t (\<lparr>start = Unix 0, start_int = 0, end' = Unix 10, end_int = 10,
       local = False, debug = False, timeline = []\<rparr>) (Time (Unix 15)) = Inr (max 0 (min 10 15)) \<and>
   add_t (\<lparr>start = Unix 0, start_int = 0, end' = Unix 10, end_int = 10,
       local = False, debug = False, timeline = []\<rparr>) (Time (Unix 15)) = Inr 10 \<and>
   add (\<lparr>start = Unix 0, start_int = 0, end' = Unix 10, end_int = 10,
       local = False, debug = False, timeline = []\<rparr>) (Time (Unix 15)) 1 = Inr (\<lparr>start = Unix 0, start_int = 0, end' = Unix 10, end_int = 10,
       local = False, debug = False, timeline = [(10, 1)]\<rparr>)"
proof -
  have le: "start_int (\<lparr>start = Unix 0, start_int = 0, end' = Unix 10, end_int = 10,
       local = False, debug = False, timeline = []\<rparr>) \<le> end_int (\<lparr>start = Unix 0, start_int = 0, end' = Unix 10, end_int = 10,
       local = False, debug = False, timeline = []\<rparr>)"
    by simp
  have t: "ts2int (Unix 15) = Inr 15"
    by simp
  let ?W = "(\<lparr>start = Unix 0, start_int = 0, end' = Unix 10, end_int = 10,
       local = False, debug = False, timeline = []\<rparr>)"
  from C3_clamping [where self = ?W and t = "Unix 15" and n = 15 and time = "Time (Unix 15)"
      and k = 10 and d = 1] le t show ?thesis
    by (simp add: add_def add_t_def add_at_def irange_key_def)
qed

text \<open>
  Claim C3 as stated includes windows with \<open>start > end\<close>. On the window
  \<open>[10, 0]\<close> the time \<open>5\<close> is stored at \<open>0\<close>, while \<open>max s (min e t)\<close> is \<open>10\<close>.
\<close>

theorem C3_inverted_window_counterexample:
  "init (Some (Unix 10)) (Some (Unix 0)) False False = Inr (\<lparr>start = Unix 10, start_int = 10, end' = Unix 0, end_int = 0,
       local = False, debug = False, timeline = []\<rparr>) \<and>
   add (\<lparr>start = Unix 10, start_int = 10, end' = Unix 0, end_int = 0,
       local = False, debug = False, timeline = []\<rparr>) (Time (Unix 5)) 1 = Inr (\<lparr>start = Unix 10, start_int = 10, end' = Unix 0, end_int = 0,
       local = False, debug = False, timeline = [(0, 1)]\<rparr>) \<and>
   add_t (\<lparr>start = Unix 10, start_int = 10, end' = Unix 0, end_int = 0,
       local = False, debug = False, timeline = []\<rparr>) (Time (Unix 5)) = Inr 0 \<and>
   ts2int (Unix 5) = Inr 5 \<and>
   max (10::int) (min 0 5) = 10"
  by (simp add: init_def reset_def add_def add_t_def add_at_def irange_key_def)

text \<open>
  Claim C4: in every state of an instance, two \<open>add\<close> calls whose times have the same
  instant raise nothing and leave exactly one entry at that instant. Its value is what
  was stored there before plus \<open>d1 + d2\<close>; so it is \<open>d1 + d2\<close> when nothing was
  stored there before. No new entry beyond that instant appears, no two entries have the
  same instant, and the entries are sorted by instant, after the calls as before them.
\<close>

theorem C4_coalescing:
  assumes "reachable self" and "add_t self t1 = Inr k" and "add_t self t2 = add_t self t1"
  shows "\<exists>self1 self2.
           add self t1 d1 = Inr self1 \<and> add self1 t2 d2 = Inr self2 \<and>
           filter (\<lambda>v. fst v = k) (timeline self2) =
             [(k, delta_at (timeline self) k + d1 + d2)] \<and>
           (k \<notin> fst ` set (timeline self) \<longrightarrow>
              filter (\<lambda>v. fst v = k) (timeline self2) = [(k, d1 + d2)]) \<and>
           length (timeline self2) = card (insert k (fst ` set (timeline self))) \<and>
           distinct (map fst (timeline self2)) \<and>
           sorted (map fst (timeline self2)) \<and>
           distinct (map fst (timeline self)) \<and>
           sorted (map fst (timeline self))"
proof -
  let ?self1 = "add_at self k d1"
  let ?self2 = "add_at ?self1 k d2"
  have a1: "add self t1 d1 = Inr ?self1"
    using assms(2) by (simp add: add_def)
  have a2: "add ?self1 t2 d2 = Inr ?self2"
    using assms(2,3) by (simp add: add_def add_t_add_at)
  have "reachable ?self1"
    using assms(1) a1 by (rule reachable_add)
  then have "reachable ?self2"
    using a2 by (rule reachable_add)
  then have inv': "timeline_inv ?self2"
    by (rule reachable_inv)
  from assms(1) have inv: "timeline_inv self"
    by (rule reachable_inv)
  have keys: "fst ` set (timeline ?self2) = insert k (fst ` set (timeline self))"
    by (simp add: keys_add_at)
  have delta: "delta_at (timeline ?self2) k = delta_at (timeline self) k + d1 + d2"
    by (simp add: delta_at_add_at)
  have one: "filter (\<lambda>v. fst v = k) (timeline ?self2) =
      [(k, delta_at (timeline self) k + d1 + d2)]"
    using filter_key_unique [of "timeline ?self2" k] inv_distinct [OF inv'] keys delta
    by simp
  have fresh: "filter (\<lambda>v. fst v = k) (timeline ?self2) = [(k, d1 + d2)]"
    if "k \<notin> fst ` set (timeline self)"
    using one delta_at_absent [OF that] by simp
  have len: "length (timeline ?self2) = card (insert k (fst ` set (timeline self)))"
    using card_keys [OF inv_distinct [OF inv']] keys by simp
  have srt: "sorted_wrt (<) (map fst (timeline ?self2))" "sorted_wrt (<) (map fst (timeline self))"
    using inv inv' by (simp_all add: timeline_inv_def)
  then have "distinct (map fst (timeline ?self2))" "sorted (map fst (timeline ?self2))"
    "distinct (map fst (timeline self))" "sorted (map fst (timeline self))"
    by (simp_all add: strict_sorted_iff)
  with a1 a2 one fresh len show ?thesis
    by blast
qed

text \<open>C4 on a fresh instance: the times \<open>3\<close> and \<open>3.5\<close> both quantize to \<open>3\<close>.\<close>

theorem C4_coalescing_witness:
  "reachable (\<lparr>start = Unix 0, start_int = 0, end' = Unix 10, end_int = 10,
       local = False, debug = False, timeline = []\<rparr>) \<and>
   add_t (\<lparr>start = Unix 0, start_int = 0, end' = Unix 10, end_int = 10,
       local = False, debug = False, timeline = []\<rparr>) (Time (Unix 3)) = Inr 3 \<and>
   add_t (\<lparr>start = Unix 0, start_int = 0, end' = Unix 10, end_int = 10,
       local = False, debug = False, timeline = []\<rparr>) (Time (Stamp (7 / 2))) = add_t (\<lparr>start = Unix 0, start_int = 0, end' = Unix 10, end_int = 10,
       local = False, debug = False, timeline = []\<rparr>) (Time (Unix 3)) \<and>
   3 \<notin> fst ` set (timeline (\<lparr>start = Unix 0, start_int = 0, end' = Unix 10, end_int = 10,
       local = False, debug = False, timeline = []\<rparr>)) \<and>
   add (\<lparr>start = Unix 0, start_int = 0, end' = Unix 10, end_int = 10,
       local = False, debug = False, timeline = []\<rparr>) (Time (Unix 3)) 2 = Inr (\<lparr>start = Unix 0, start_int = 0, end' = Unix 10, end_int = 10,
       local = False, debug = False, timeline = [(3, 2)]\<rparr>) \<and>
   add (\<lparr>start = Unix 0, start_int = 0, end' = Unix 10, end_int = 10,
       local = False, debug = False, timeline = [(3, 2)]\<rparr>) (Time (Stamp (7 / 2))) 5 = Inr (\<lparr>start = Unix 0, start_int = 0, end' = Unix 10, end_int = 10,
       local = False, debug = False, timeline = [(3, 7)]\<rparr>) \<and>
   filter (\<lambda>v. fst v = 3) (timeline (\<lparr>start = Unix 0, start_int = 0, end' = Unix 10, end_int = 10,
       local = False, debug = False, timeline = [(3, 7)]\<rparr>)) = [(3, 7)]"
proof -
  have "init (Some (Unix 0)) (Some (Unix 10)) False False = Inr (\<lparr>start = Unix 0, start_int = 0, end' = Unix 10, end_int = 10,
       local = False, debug = False, timeline = []\<rparr>)"
    by (simp add: init_def reset_def)
  then have w: "reachable (\<lparr>start = Unix 0, start_int = 0, end' = Unix 10, end_int = 10,
       local = False, debug = False, timeline = []\<rparr>)"
    by (rule reachable_init)
  have k: "add_t (\<lparr>start = Unix 0, start_int = 0, end' = Unix 10, end_int = 10,
       local = False, debug = False, timeline = []\<rparr>) (Time (Unix 3)) = Inr 3"
    by (simp add: add_t_def)
  have same: "add_t (\<lparr>start = Unix 0, start_int = 0, end' = Unix 10, end_int = 10,
       local = False, debug = False, timeline = []\<rparr>) (Time (Stamp (7 / 2))) = add_t (\<lparr>start = Unix 0, start_int = 0, end' = Unix 10, end_int = 10,
       local = False, debug = False, timeline = []\<rparr>) (Time (Unix 3))"
    by (simp add: add_t_def floor_unique)
  have a1: "add (\<lparr>start = Unix 0, start_int = 0, end' = Unix 10, end_int = 10,
       local = False, debug = False, timeline = []\<rparr>) (Time (Unix 3)) 2 = Inr (\<lparr>start = Unix 0, start_int = 0, end' = Unix 10, end_int = 10,
       local = False, debug = False, timeline = [(3, 2)]\<rparr>)"
    by (simp add: add_def add_t_def add_at_def irange_key_def)
  have a2: "add (\<lparr>start = Unix 0, start_int = 0, end' = Unix 10, end_int = 10,
       local = False, debug = False, timeline = [(3, 2)]\<rparr>) (Time (Stamp (7 / 2))) 5 = Inr (\<lparr>start = Unix 0, start_int = 0, end' = Unix 10, end_int = 10,
       local = False, debug = False, timeline = [(3, 7)]\<rparr>)"
    by (simp add: add_def add_t_def add_at_def irange_key_def floor_unique)
  from C4_coalescing [OF w k same, of 2 5] w k same a1 a2 show ?thesis
    by simp
qed




text \<open>
  Claim C6: when the partition has no rows, \<open>norm\<close> raises the error of Python's
  \<^verbatim>\<open>max\<close> on an empty sequence (\<^verbatim>\<open>ValueError\<close>), while \<open>average\<close> on the same
  state raises nothing and returns \<open>0\<close>.
\<close>

theorem C6_empty_partition:
  assumes "partition' self = Inr []"
  shows "norm' self = Inl ValueError \<and> average self = Inr 0"
proof -
  from assms have "length (timeline self) \<le> 1"
    by (simp add: partition_Nil_iff)
  then have "average self = Inr 0"
    by (simp add: average_def)
  moreover from assms have "norm' self = Inl ValueError"
    by (simp add: norm'_def delta_x_def)
  ultimately show ?thesis
    by simp
qed

text \<open>The hypothesis of C6 holds after a single \<open>add\<close> on an empty timeline.\<close>

theorem C6_empty_partition_witness:
  "add (\<lparr>start = Unix 0, start_int = 0, end' = Unix 10, end_int = 10,
       local = False, debug = False, timeline = []\<rparr>) (Time (Unix 0)) 1 = Inr (\<lparr>start = Unix 0, start_int = 0, end' = Unix 10, end_int = 10,
       local = False, debug = False, timeline = [(0, 1)]\<rparr>) \<and>
   partition' (\<lparr>start = Unix 0, start_int = 0, end' = Unix 10, end_int = 10,
       local = False, debug = False, timeline = [(0, 1)]\<rparr>) = Inr [] \<and>
   norm' (\<lparr>start = Unix 0, start_int = 0, end' = Unix 10, end_int = 10,
       local = False, debug = False, timeline = [(0, 1)]\<rparr>) = Inl ValueError \<and>
   average (\<lparr>start = Unix 0, start_int = 0, end' = Unix 10, end_int = 10,
       local = False, debug = False, timeline = [(0, 1)]\<rparr>) = Inr 0"
proof -
  have a: "add (\<lparr>start = Unix 0, start_int = 0, end' = Unix 10, end_int = 10,
       local = False, debug = False, timeline = []\<rparr>) (Time (Unix 0)) 1 = Inr (\<lparr>start = Unix 0, start_int = 0, end' = Unix 10, end_int = 10,
       local = False, debug = False, timeline = [(0, 1)]\<rparr>)"
    by (simp add: add_def add_t_def add_at_def irange_key_def)
  have e: "partition' (\<lparr>start = Unix 0, start_int = 0, end' = Unix 10, end_int = 10,
       local = False, debug = False, timeline = [(0, 1)]\<rparr>) = Inr []"
    by (simp add: partition'_def partition_loop.simps)
  from C6_empty_partition [OF e] a e show ?thesis
    by simp
qed

text \<open>
  Claim C7: \<open>count\<close> resets before it loads. Loading the same data twice gives the
  same instance state and the same outcome, hence the same partition; whatever was
  loaded before (\<open>data'\<close>) leaves no trace; loading equals loading into the reset
  instance; and loading no rows leaves the timeline empty.
\<close>

theorem C7_count_resets:
  "count (fst (count self data)) data = count self data \<and>
   partition' (fst (count (fst (count self data)) data)) = partition' (fst (count self data)) \<and>
   count (fst (count self data')) data = count self data \<and>
   count self data = count (reset self) data \<and>
   count self [] = (reset self, None) \<and>
   timeline (fst (count self [])) = []"
proof -
  have later: "count (fst (count self d)) data = count self data" for d
    by (simp add: count_def [of "fst (count self d)"] reset_count) (simp add: count_def)
  have "count (reset self) data = count self data"
    by (simp add: count_def reset_reset)
  moreover have "count self [] = (reset self, None)"
    by (simp add: count_def)
  moreover have "timeline (fst (count self [])) = []"
    by (simp add: count_def reset_def)
  ultimately show ?thesis
    by (simp add: later)
qed

text \<open>
  Claim C8: when \<open>start\<close> or \<open>end\<close> is \<^verbatim>\<open>None\<close>, construction fails with the
  error the constructor raises (\<^verbatim>\<open>TypeError\<close>), and the result is no instance.
\<close>

theorem C8_init_None:
  "init None e l d = Inl TypeError \<and> init s None l d = Inl TypeError"
  by (simp add: init_def)

text \<open>
  Claim C9: in every state of an instance with \<open>start_int \<le> end_int\<close>, \<open>average\<close>
  does not divide by zero; when \<open>end_int - start_int = 0\<close>, every \<open>add\<close> that
  raises nothing has the instant \<open>end_int\<close>, the timeline holds at most one entry,
  and \<open>average\<close> returns \<open>0\<close>.
\<close>

theorem C9_no_division_by_zero:
  assumes "reachable self" and "start_int self \<le> end_int self"
  shows "average self \<noteq> Inl ZeroDivisionError \<and>
         (end_int self - start_int self = 0 \<longrightarrow>
            (\<forall>time. converts time \<longrightarrow> add_t self time = Inr (end_int self)) \<and>
            (\<forall>time k. add_t self time = Inr k \<longrightarrow> k = end_int self) \<and>
            length (timeline self) \<le> 1 \<and>
            average self = Inr 0)"
proof -
  from assms(1) have inv: "timeline_inv self"
    by (rule reachable_inv)
  then have conv: "ts2int (start self) = Inr (start_int self)"
    "ts2int (end' self) = Inr (end_int self)"
    by (simp_all add: timeline_inv_def)
  have no_error: "average self \<noteq> Inl ZeroDivisionError"
  proof (cases "length (timeline self) \<le> 1")
    case True
    then show ?thesis
      by (simp add: average_def)
  next
    case False
    then have "start_int self < end_int self"
      using inv_two_entries [OF inv] by simp
    moreover have "partition' self \<noteq> Inl ZeroDivisionError"
      using partition_Inr [of self] partition_Inl [of self] False
      by (cases "list_all in_calendar (map fst (timeline self))") auto
    ultimately show ?thesis
      using False by (cases "partition' self") (simp_all add: average_def conv Let_def)
  qed
  have degenerate: "(\<forall>time. converts time \<longrightarrow> add_t self time = Inr (end_int self)) \<and>
      (\<forall>time k. add_t self time = Inr k \<longrightarrow> k = end_int self) \<and>
      length (timeline self) \<le> 1 \<and> average self = Inr 0"
    if eq: "end_int self - start_int self = 0"
  proof -
    have clamp: "k = end_int self" if "add_t self time = Inr k" for time k
      using add_t_bounds [OF that] eq by simp
    have total: "add_t self time = Inr (end_int self)" if "converts time" for time
    proof -
      from that add_t_converts [of self time] obtain k where "add_t self time = Inr k"
        by blast
      with clamp [OF this] show ?thesis
        by simp
    qed
    have short: "length (timeline self) \<le> 1"
    proof (rule ccontr)
      assume "\<not> length (timeline self) \<le> 1"
      then have "start_int self < end_int self"
        using inv_two_entries [OF inv] by simp
      with eq show False by simp
    qed
    then have "average self = Inr 0"
      by (simp add: average_def)
    with clamp total short show ?thesis
      by blast
  qed
  from no_error degenerate show ?thesis
    by blast
qed

text \<open>C9 on the window \<open>[5, 5]\<close> after two \<open>add\<close> calls.\<close>

theorem C9_no_division_by_zero_witness:
  "reachable (\<lparr>start = Unix 5, start_int = 5, end' = Unix 5, end_int = 5,
       local = False, debug = False, timeline = [(5, 0)]\<rparr>) \<and>
   start_int (\<lparr>start = Unix 5, start_int = 5, end' = Unix 5, end_int = 5,
       local = False, debug = False, timeline = [(5, 0)]\<rparr>) \<le> end_int (\<lparr>start = Unix 5, start_int = 5, end' = Unix 5, end_int = 5,
       local = False, debug = False, timeline = [(5, 0)]\<rparr>) \<and>
   end_int (\<lparr>start = Unix 5, start_int = 5, end' = Unix 5, end_int = 5,
       local = False, debug = False, timeline = [(5, 0)]\<rparr>) - start_int (\<lparr>start = Unix 5, start_int = 5, end' = Unix 5, end_int = 5,
       local = False, debug = False, timeline = [(5, 0)]\<rparr>) = 0 \<and>
   converts (Time (Unix 9)) \<and>
   add_t (\<lparr>start = Unix 5, start_int = 5, end' = Unix 5, end_int = 5,
       local = False, debug = False, timeline = [(5, 0)]\<rparr>) (Time (Unix 9)) = Inr 5 \<and>
   average (\<lparr>start = Unix 5, start_int = 5, end' = Unix 5, end_int = 5,
       local = False, debug = False, timeline = [(5, 0)]\<rparr>) = Inr 0 \<and>
   average (\<lparr>start = Unix 5, start_int = 5, end' = Unix 5, end_int = 5,
       local = False, debug = False, timeline = [(5, 0)]\<rparr>) \<noteq> Inl ZeroDivisionError"
proof -
  have "init (Some (Unix 5)) (Some (Unix 5)) False False = Inr (\<lparr>start = Unix 5, start_int = 5, end' = Unix 5, end_int = 5,
       local = False, debug = False, timeline = []\<rparr>)"
    by (simp add: init_def reset_def)
  then have "reachable (\<lparr>start = Unix 5, start_int = 5, end' = Unix 5, end_int = 5,
       local = False, debug = False, timeline = []\<rparr>)"
    by (rule reachable_init)
  moreover have "add (\<lparr>start = Unix 5, start_int = 5, end' = Unix 5, end_int = 5,
       local = False, debug = False, timeline = []\<rparr>) (Time (Unix 0)) 1 = Inr (\<lparr>start = Unix 5, start_int = 5, end' = Unix 5, end_int = 5,
       local = False, debug = False, timeline = [(5, 1)]\<rparr>)"
    by (simp add: add_def add_t_def add_at_def irange_key_def)
  ultimately have "reachable (\<lparr>start = Unix 5, start_int = 5, end' = Unix 5, end_int = 5,
       local = False, debug = False, timeline = [(5, 1)]\<rparr>)"
    by (rule reachable_add)
  moreover have "add (\<lparr>start = Unix 5, start_int = 5, end' = Unix 5, end_int = 5,
       local = False, debug = False, timeline = [(5, 1)]\<rparr>) (Time (Unix 9)) (- 1) = Inr (\<lparr>start = Unix 5, start_int = 5, end' = Unix 5, end_int = 5,
       local = False, debug = False, timeline = [(5, 0)]\<rparr>)"
    by (simp add: add_def add_t_def add_at_def irange_key_def)
  ultimately have x: "reachable (\<lparr>start = Unix 5, start_int = 5, end' = Unix 5, end_int = 5,
       local = False, debug = False, timeline = [(5, 0)]\<rparr>)"
    by (rule reachable_add)
  have le: "start_int (\<lparr>start = Unix 5, start_int = 5, end' = Unix 5, end_int = 5,
       local = False, debug = False, timeline = [(5, 0)]\<rparr>) \<le> end_int (\<lparr>start = Unix 5, start_int = 5, end' = Unix 5, end_int = 5,
       local = False, debug = False, timeline = [(5, 0)]\<rparr>)"
    by simp
  have c: "converts (Time (Unix 9))"
    by (simp add: converts_def)
  from C9_no_division_by_zero [OF x le] x c show ?thesis
    by simp
qed




end
